theory Spec2Isabelle
  imports Main "HOL-Library.Word"
begin

section \<open>The ddi delay target (dm-ddi.c)\<close>

text \<open>
  A shallow embedding of the device-mapper target of \<^verbatim>\<open>dm-ddi.c\<close>: the per-target
  context \<^verbatim>\<open>struct delay_c\<close>, the list of delayed bios, the single timer, the flush
  work item and the sysfs store functions. Every source function is a HOL function
  from the state before the call to the state after it; the value of \<^verbatim>\<open>jiffies\<close>
  read by a function is an explicit argument.
\<close>

subsection \<open>Machine types\<close>

type_synonym sector_t = "64 word"
type_synonym jiffies_t = "64 word"   \<comment> \<open>\<^verbatim>\<open>unsigned long\<close>\<close>
type_synonym unsigned = "32 word"

subsection \<open>Kernel objects the driver uses\<close>

text \<open>
  Modelled from the spec: \<^verbatim>\<open>struct bio\<close>, \<^verbatim>\<open>struct dm_dev\<close>, \<^verbatim>\<open>struct dm_target\<close> and
  \<^verbatim>\<open>struct timer_list\<close> are kernel declarations that are not part of the driver's
  source. Each is a record of the fields the driver touches. The macros
  \<^verbatim>\<open>bio_data_dir\<close> and \<^verbatim>\<open>bio_sectors\<close> read a request's direction and its number of
  sectors; they are fields of the request here.
\<close>

datatype rw = READ | WRITE

record dm_dev =
  dev_name :: string
  bdev :: nat

record bio =
  bi_bdev :: nat
  bi_sector :: sector_t
  bio_data_dir :: rw
  bio_sectors :: unsigned

record timer_list =
  timer_pending :: bool
  timer_expires :: jiffies_t

text \<open>\<^verbatim>\<open>struct dm_delay_info\<close>: the per-bio data. \<^verbatim>\<open>dm_bio_from_per_bio_data\<close> gives the
  bio a per-bio datum belongs to, here the field \<open>d_bio\<close>. One target is modelled, so the
  field \<^verbatim>\<open>context\<close>, which \<^verbatim>\<open>delay_bio\<close> sets to the target's own context, is that context.\<close>

record dm_delay_info =
  d_bio :: bio
  expires :: jiffies_t

text \<open>\<^verbatim>\<open>struct delay_c\<close>. \<open>work_pending\<close> is the pending state of the work item
  \<^verbatim>\<open>flush_expired_bios\<close> on the workqueue \<^verbatim>\<open>kdelayd_wq\<close>; \<open>dev_write\<close> is \<open>None\<close> for the
  null pointer.\<close>

record delay_c =
  delay_timer :: timer_list
  work_pending :: bool
  delayed_bios :: "dm_delay_info list"
  may_delay :: int
  dev_read :: dm_dev
  start_read :: sector_t
  read_delay :: unsigned
  reads :: unsigned
  dev_write :: "dm_dev option"
  start_write :: sector_t
  write_delay :: unsigned
  writes :: unsigned

record dm_target =
  ti_begin :: sector_t
  ti_private :: delay_c

datatype mapio = DM_MAPIO_SUBMITTED | DM_MAPIO_REMAPPED

text \<open>
  Modelled from the spec: the kernel macros and routines below are not under the
  driver's source.
  \<^item> \<^verbatim>\<open>dm_target_offset(ti, sector)\<close> is "the request's logical offset within the
    mapping": the sector less the sector at which the target begins.
  \<^item> \<^verbatim>\<open>time_after_eq(jiffies, expires)\<close> is "expiry \<open>\<le>\<close> now".
  \<^item> \<^verbatim>\<open>msecs_to_jiffies\<close> turns the delay in milliseconds into ticks ("expiry = now +
    delay"): one tick per millisecond.
  \<^item> \<^verbatim>\<open>mod_timer\<close> programs the timer and makes it pending; \<^verbatim>\<open>del_timer_sync\<close> cancels it.
\<close>

definition dm_target_offset :: "dm_target \<Rightarrow> sector_t \<Rightarrow> sector_t" where
  "dm_target_offset ti sector = sector - ti_begin ti"

definition time_after_eq :: "jiffies_t \<Rightarrow> jiffies_t \<Rightarrow> bool" where
  "time_after_eq a b = (b \<le> a)"

definition msecs_to_jiffies :: "unsigned \<Rightarrow> jiffies_t" where
  "msecs_to_jiffies m = ucast m"

definition mod_timer :: "timer_list \<Rightarrow> jiffies_t \<Rightarrow> timer_list" where
  "mod_timer t e = t\<lparr>timer_pending := True, timer_expires := e\<rparr>"

definition del_timer_sync :: "timer_list \<Rightarrow> timer_list" where
  "del_timer_sync t = t\<lparr>timer_pending := False\<rparr>"

subsection \<open>The timer: \<^verbatim>\<open>queue_timeout\<close> and \<^verbatim>\<open>handle_delayed_timer\<close>\<close>

definition queue_timeout :: "delay_c \<Rightarrow> jiffies_t \<Rightarrow> delay_c" where
  "queue_timeout dc e =
     (if \<not> timer_pending (delay_timer dc) \<or> e < timer_expires (delay_timer dc)
      then dc\<lparr>delay_timer := mod_timer (delay_timer dc) e\<rparr>
      else dc)"

text \<open>The timer's callback only queues the work item.\<close>

definition handle_delayed_timer :: "delay_c \<Rightarrow> delay_c" where
  "handle_delayed_timer dc = dc\<lparr>work_pending := True\<rparr>"

subsection \<open>Admission: \<^verbatim>\<open>delay_bio\<close> and \<^verbatim>\<open>delay_map\<close>\<close>

text \<open>The parameter \<^verbatim>\<open>int delay\<close> receives an \<^verbatim>\<open>unsigned\<close> field and is handed to
  \<^verbatim>\<open>msecs_to_jiffies\<close>, which takes an \<^verbatim>\<open>unsigned int\<close>: it is kept as the 32-bit pattern.\<close>

definition delay_bio :: "delay_c \<Rightarrow> unsigned \<Rightarrow> bio \<Rightarrow> jiffies_t \<Rightarrow> mapio \<times> delay_c" where
  "delay_bio dc delay b jiffies =
     (if delay = 0 \<or> may_delay dc = 0 then (DM_MAPIO_REMAPPED, dc)
      else
        let e = jiffies + msecs_to_jiffies delay;
            delayed = \<lparr>d_bio = b, expires = e\<rparr>;
            dc1 = (if bio_data_dir b = WRITE then dc\<lparr>writes := writes dc + 1\<rparr>
                   else dc\<lparr>reads := reads dc + 1\<rparr>);
            dc2 = dc1\<lparr>delayed_bios := delayed_bios dc1 @ [delayed]\<rparr>
        in (DM_MAPIO_SUBMITTED, queue_timeout dc2 e))"

text \<open>\<^verbatim>\<open>delay_map\<close> returns the code of \<^verbatim>\<open>delay_bio\<close>, the request as redirected, and the
  context.\<close>

definition delay_map :: "dm_target \<Rightarrow> bio \<Rightarrow> jiffies_t \<Rightarrow> mapio \<times> bio \<times> delay_c" where
  "delay_map ti b jiffies =
     (let dc = ti_private ti in
      if bio_data_dir b = WRITE \<and> dev_write dc \<noteq> None then
        let b1 = b\<lparr>bi_bdev := bdev (the (dev_write dc))\<rparr>;
            b2 = (if bio_sectors b1 \<noteq> 0
                  then b1\<lparr>bi_sector := start_write dc + dm_target_offset ti (bi_sector b1)\<rparr>
                  else b1);
            (r, dc') = delay_bio dc (write_delay dc) b2 jiffies
        in (r, b2, dc')
      else
        let b1 = b\<lparr>bi_bdev := bdev (dev_read dc)\<rparr>;
            b2 = b1\<lparr>bi_sector := start_read dc + dm_target_offset ti (bi_sector b1)\<rparr>;
            (r, dc') = delay_bio dc (read_delay dc) b2 jiffies
        in (r, b2, dc'))"

subsection \<open>Release: \<^verbatim>\<open>flush_bios\<close>, \<^verbatim>\<open>flush_delayed_bios\<close>, \<^verbatim>\<open>flush_expired_bios\<close>\<close>

text \<open>\<^verbatim>\<open>flush_bios\<close> walks the chain of bios and passes each to \<^verbatim>\<open>generic_make_request\<close>: its
  value is the sequence of those calls.\<close>

fun flush_bios :: "bio list \<Rightarrow> bio list" where
  "flush_bios [] = []"
| "flush_bios (b # n) = b # flush_bios n"

text \<open>The variables of the loop of \<^verbatim>\<open>flush_delayed_bios\<close>: what is left on the list
  \<^verbatim>\<open>dc->delayed_bios\<close> of the entries visited so far, the local \<^verbatim>\<open>flush_bios\<close>,
  \<^verbatim>\<open>start_timer\<close>, \<^verbatim>\<open>next_expires\<close>, and the two counters.\<close>

record flush_vars =
  fv_kept :: "dm_delay_info list"
  fv_flush_bios :: "bio list"
  fv_start_timer :: int
  fv_next_expires :: jiffies_t
  fv_reads :: unsigned
  fv_writes :: unsigned

fun flush_scan :: "int \<Rightarrow> jiffies_t \<Rightarrow> dm_delay_info list \<Rightarrow> flush_vars \<Rightarrow> flush_vars" where
  "flush_scan flush_all jiffies [] v = v"
| "flush_scan flush_all jiffies (delayed # rest) v =
     flush_scan flush_all jiffies rest
       (if flush_all \<noteq> 0 \<or> time_after_eq jiffies (expires delayed) then
          let b = d_bio delayed;
              v1 = v\<lparr>fv_flush_bios := fv_flush_bios v @ [b]\<rparr>
          in if bio_data_dir b = WRITE then v1\<lparr>fv_writes := fv_writes v1 - 1\<rparr>
             else v1\<lparr>fv_reads := fv_reads v1 - 1\<rparr>
        else
          let v1 = v\<lparr>fv_kept := fv_kept v @ [delayed]\<rparr>
          in if fv_start_timer v1 = 0
             then v1\<lparr>fv_start_timer := 1, fv_next_expires := expires delayed\<rparr>
             else v1\<lparr>fv_next_expires := min (fv_next_expires v1) (expires delayed)\<rparr>)"

definition flush_init :: "delay_c \<Rightarrow> flush_vars" where
  "flush_init dc =
     \<lparr>fv_kept = [], fv_flush_bios = [], fv_start_timer = 0, fv_next_expires = 0,
      fv_reads = reads dc, fv_writes = writes dc\<rparr>"

definition flush_delayed_bios :: "delay_c \<Rightarrow> int \<Rightarrow> jiffies_t \<Rightarrow> bio list \<times> delay_c" where
  "flush_delayed_bios dc flush_all jiffies =
     (let v = flush_scan flush_all jiffies (delayed_bios dc) (flush_init dc);
          dc1 = dc\<lparr>delayed_bios := fv_kept v, reads := fv_reads v, writes := fv_writes v\<rparr>;
          dc2 = (if fv_start_timer v \<noteq> 0 then queue_timeout dc1 (fv_next_expires v) else dc1)
      in (fv_flush_bios v, dc2))"

definition flush_expired_bios :: "delay_c \<Rightarrow> jiffies_t \<Rightarrow> bio list \<times> delay_c" where
  "flush_expired_bios dc jiffies =
     (let (bs, dc') = flush_delayed_bios dc 0 jiffies in (flush_bios bs, dc'))"

subsection \<open>Suspend and resume\<close>

definition delay_presuspend :: "dm_target \<Rightarrow> jiffies_t \<Rightarrow> bio list \<times> delay_c" where
  "delay_presuspend ti jiffies =
     (let dc = ti_private ti;
          dc1 = dc\<lparr>may_delay := 0\<rparr>;
          dc2 = dc1\<lparr>delay_timer := del_timer_sync (delay_timer dc1)\<rparr>;
          (bs, dc3) = flush_delayed_bios dc2 1 jiffies
      in (flush_bios bs, dc3))"

definition delay_resume :: "dm_target \<Rightarrow> delay_c" where
  "delay_resume ti = (ti_private ti)\<lparr>may_delay := 1\<rparr>"

subsection \<open>The sysfs attributes\<close>

text \<open>
  Modelled from the spec: \<^verbatim>\<open>sscanf\<close> is a library routine of the kernel, not under the
  driver's source. The attribute holds a plaintext integer; the conversion \<^verbatim>\<open>%d\<close> skips
  leading white space, takes an optional minus sign and then decimal digits, and stores
  nothing when no digit stands there.
\<close>

definition isspace :: "char \<Rightarrow> bool" where
  "isspace c = (of_char c \<in> {32::nat, 9, 10, 11, 12, 13})"

definition isdigit :: "char \<Rightarrow> bool" where
  "isdigit c = (48 \<le> (of_char c :: nat) \<and> (of_char c :: nat) \<le> 57)"

fun strtoul10 :: "nat \<Rightarrow> string \<Rightarrow> nat" where
  "strtoul10 acc [] = acc"
| "strtoul10 acc (c # cs) =
     (if isdigit c then strtoul10 (10 * acc + (of_char c - 48)) cs else acc)"

definition sscanf_d :: "string \<Rightarrow> int option" where
  "sscanf_d buf =
     (case dropWhile isspace buf of
        [] \<Rightarrow> None
      | c # cs \<Rightarrow>
          if c = CHR ''-'' then
            (case cs of
               [] \<Rightarrow> None
             | d # _ \<Rightarrow> if isdigit d then Some (- int (strtoul10 0 cs)) else None)
          else if isdigit c then Some (int (strtoul10 0 (c # cs)))
          else None)"

text \<open>The pointer \<^verbatim>\<open>unsigned *delay\<close> of \<^verbatim>\<open>store_delay\<close> points at one of two fields of the
  context; \<^verbatim>\<open>store_delay\<close> assigns through it (and reads it only to log the old value).\<close>

datatype delay_ptr = READ_DELAY | WRITE_DELAY

fun assign :: "delay_c \<Rightarrow> delay_ptr \<Rightarrow> unsigned \<Rightarrow> delay_c" where
  "assign dc READ_DELAY v = dc\<lparr>read_delay := v\<rparr>"
| "assign dc WRITE_DELAY v = dc\<lparr>write_delay := v\<rparr>"

text \<open>
  \<^verbatim>\<open>store_delay\<close>. The local \<^verbatim>\<open>unsigned new_delay\<close> is not initialised: \<open>garbage\<close> is the
  value it holds when \<^verbatim>\<open>sscanf\<close> stores nothing. \<^verbatim>\<open>sscanf\<close> writes an \<^verbatim>\<open>int\<close> into it, so
  a negative number is stored as its 32-bit two's complement pattern. The test
  \<^verbatim>\<open>new_delay < 0\<close> compares an unsigned value with zero. \<^verbatim>\<open>printk\<close> changes nothing of
  the context. The returned \<^verbatim>\<open>ssize_t\<close> is the signed reading of \<^verbatim>\<open>count\<close>; an error
  would be a negative value.
\<close>

definition store_delay ::
    "delay_c \<Rightarrow> delay_ptr \<Rightarrow> string \<Rightarrow> 64 word \<Rightarrow> jiffies_t \<Rightarrow> unsigned \<Rightarrow> int \<times> delay_c" where
  "store_delay dc delay buf count jiffies garbage =
     (let new_delay = (case sscanf_d buf of Some n \<Rightarrow> word_of_int n | None \<Rightarrow> garbage) in
      if new_delay < 0 then (sint count, dc)
      else
        let dc1 = assign dc delay new_delay;
            e = jiffies + msecs_to_jiffies new_delay
        in (sint count, queue_timeout dc1 e))"

definition read_delay_store ::
    "delay_c \<Rightarrow> string \<Rightarrow> 64 word \<Rightarrow> jiffies_t \<Rightarrow> unsigned \<Rightarrow> int \<times> delay_c" where
  "read_delay_store dc buf count jiffies garbage =
     store_delay dc READ_DELAY buf count jiffies garbage"

definition write_delay_store ::
    "delay_c \<Rightarrow> string \<Rightarrow> 64 word \<Rightarrow> jiffies_t \<Rightarrow> unsigned \<Rightarrow> int \<times> delay_c" where
  "write_delay_store dc buf count jiffies garbage =
     (if dev_write dc = None then (sint count, dc)
      else store_delay dc WRITE_DELAY buf count jiffies garbage)"

subsection \<open>The target as a state machine\<close>

text \<open>
  What \<^verbatim>\<open>delay_ctr\<close> leaves on success: both counters zero, the timer set up and not
  pending, the work item initialised, the list empty, \<^verbatim>\<open>may_delay\<close> set.
\<close>

definition constructed :: "delay_c \<Rightarrow> bool" where
  "constructed dc =
     (reads dc = 0 \<and> writes dc = 0 \<and> delayed_bios dc = [] \<and> may_delay dc = 1 \<and>
      timer_pending (delay_timer dc) = False \<and> work_pending dc = False)"

text \<open>
  The kernel calls into the target: the device-mapper core maps a bio, suspends and
  resumes; the timer fires once \<^verbatim>\<open>jiffies\<close> has reached its expiry, which takes it off
  the pending state and calls \<^verbatim>\<open>handle_delayed_timer\<close>; the workqueue runs the queued
  work item \<^verbatim>\<open>flush_expired_bios\<close>; sysfs writes an attribute. Each call is one step.
\<close>

datatype event =
    Map bio jiffies_t
  | Timer_Fires jiffies_t
  | Work_Runs jiffies_t
  | Read_Delay_Store string "64 word" jiffies_t unsigned
  | Write_Delay_Store string "64 word" jiffies_t unsigned
  | Presuspend jiffies_t
  | Resume

fun step :: "dm_target \<Rightarrow> event \<Rightarrow> dm_target" where
  "step ti (Map b j) = ti\<lparr>ti_private := snd (snd (delay_map ti b j))\<rparr>"
| "step ti (Timer_Fires j) =
     (let dc = ti_private ti; t = delay_timer dc in
      if timer_pending t \<and> time_after_eq j (timer_expires t)
      then ti\<lparr>ti_private := handle_delayed_timer (dc\<lparr>delay_timer := t\<lparr>timer_pending := False\<rparr>\<rparr>)\<rparr>
      else ti)"
| "step ti (Work_Runs j) =
     (let dc = ti_private ti in
      if work_pending dc
      then ti\<lparr>ti_private := snd (flush_expired_bios (dc\<lparr>work_pending := False\<rparr>) j)\<rparr>
      else ti)"
| "step ti (Read_Delay_Store buf count j g) =
     ti\<lparr>ti_private := snd (read_delay_store (ti_private ti) buf count j g)\<rparr>"
| "step ti (Write_Delay_Store buf count j g) =
     ti\<lparr>ti_private := snd (write_delay_store (ti_private ti) buf count j g)\<rparr>"
| "step ti (Presuspend j) = ti\<lparr>ti_private := snd (delay_presuspend ti j)\<rparr>"
| "step ti Resume = ti\<lparr>ti_private := delay_resume ti\<rparr>"

fun run :: "dm_target \<Rightarrow> event list \<Rightarrow> dm_target" where
  "run ti [] = ti"
| "run ti (ev # evs) = run (step ti ev) evs"

subsection \<open>Example targets and requests\<close>

text \<open>A target with a read device only (delay 100 ms) and one with a separate write
  device: reads on device 1 at offset 0 undelayed, writes on device 2 at offset 100
  delayed by 200 ms.\<close>

definition dc_single :: delay_c where
  "dc_single =
     \<lparr>delay_timer = \<lparr>timer_pending = False, timer_expires = 0\<rparr>, work_pending = False,
      delayed_bios = [], may_delay = 1,
      dev_read = \<lparr>dev_name = ''A'', bdev = 1\<rparr>, start_read = 0, read_delay = 100, reads = 0,
      dev_write = None, start_write = 0, write_delay = 0, writes = 0\<rparr>"

definition dc_dual :: delay_c where
  "dc_dual =
     \<lparr>delay_timer = \<lparr>timer_pending = False, timer_expires = 0\<rparr>, work_pending = False,
      delayed_bios = [], may_delay = 1,
      dev_read = \<lparr>dev_name = ''A'', bdev = 1\<rparr>, start_read = 0, read_delay = 0, reads = 0,
      dev_write = Some \<lparr>dev_name = ''B'', bdev = 2\<rparr>, start_write = 100, write_delay = 200,
      writes = 0\<rparr>"

definition ti_single :: dm_target where
  "ti_single = \<lparr>ti_begin = 0, ti_private = dc_single\<rparr>"

definition ti_dual :: dm_target where
  "ti_dual = \<lparr>ti_begin = 0, ti_private = dc_dual\<rparr>"

definition read_bio :: "sector_t \<Rightarrow> bio" where
  "read_bio s = \<lparr>bi_bdev = 0, bi_sector = s, bio_data_dir = READ, bio_sectors = 8\<rparr>"

definition write_bio :: "sector_t \<Rightarrow> bio" where
  "write_bio s = \<lparr>bi_bdev = 0, bi_sector = s, bio_data_dir = WRITE, bio_sectors = 8\<rparr>"

text \<open>A write that carries no sectors (an empty flush).\<close>

definition empty_write_bio :: "sector_t \<Rightarrow> bio" where
  "empty_write_bio s = \<lparr>bi_bdev = 0, bi_sector = s, bio_data_dir = WRITE, bio_sectors = 0\<rparr>"

text \<open>A context with three requests queued, in this order: a read that expires at 100,
  a write that expires at 300 and a read that expires at 50 (each admitted at
  time 0, the read delay being 100, then 300, then 50); the timer is armed for 50.\<close>

definition dc_queued :: delay_c where
  "dc_queued =
     dc_single\<lparr>delay_timer := \<lparr>timer_pending = True, timer_expires = 50\<rparr>,
       delayed_bios :=
         [\<lparr>d_bio = (read_bio 0)\<lparr>bi_bdev := 1\<rparr>, expires = 100\<rparr>,
          \<lparr>d_bio = (write_bio 8)\<lparr>bi_bdev := 1\<rparr>, expires = 300\<rparr>,
          \<lparr>d_bio = (read_bio 16)\<lparr>bi_bdev := 1\<rparr>, expires = 50\<rparr>],
       read_delay := 50, reads := 2, writes := 1\<rparr>"

text \<open>The calls that lead from the target just constructed to that context.\<close>

definition queued_events :: "event list" where
  "queued_events =
     [Map (read_bio 0) 0, Read_Delay_Store ''300'' 3 0 0, Map (write_bio 8) 0,
      Read_Delay_Store ''50'' 2 0 0, Map (read_bio 16) 0]"

text \<open>A read is queued at time 0 and expires at 100; the timer fires at 100 and queues
  the work item; before the work item runs, a second read is admitted at 100.\<close>

definition late_timer_events :: "event list" where
  "late_timer_events = [Map (read_bio 0) 0, Timer_Fires 100, Map (read_bio 8) 100]"

subsection \<open>The vocabulary of the properties\<close>

text \<open>An entry is due at \<open>now\<close> when its expiry is at most \<open>now\<close>, and always under a
  forced drain.\<close>

definition due :: "int \<Rightarrow> jiffies_t \<Rightarrow> dm_delay_info \<Rightarrow> bool" where
  "due flush_all now d = (flush_all \<noteq> 0 \<or> expires d \<le> now)"

text \<open>The number of queued requests of one direction.\<close>

definition count_dir :: "rw \<Rightarrow> dm_delay_info list \<Rightarrow> nat" where
  "count_dir dir q = length (filter (\<lambda>d. bio_data_dir (d_bio d) = dir) q)"

text \<open>The timer covers the queue: the queue is empty, or the timer is pending and armed
  no later than any queued expiry.\<close>

definition timer_covers :: "delay_c \<Rightarrow> bool" where
  "timer_covers dc =
     (delayed_bios dc = [] \<or>
      (timer_pending (delay_timer dc) \<and>
       list_all (\<lambda>d. timer_expires (delay_timer dc) \<le> expires d) (delayed_bios dc)))"

text \<open>The counters agree with the queue, in the counters' own 32-bit type.\<close>

definition counters_ok :: "delay_c \<Rightarrow> bool" where
  "counters_ok dc =
     (reads dc = of_nat (count_dir READ (delayed_bios dc)) \<and>
      writes dc = of_nat (count_dir WRITE (delayed_bios dc)))"

text \<open>The invariant of the timer: the work item is queued, or the timer covers the
  queue.\<close>

definition timer_inv :: "delay_c \<Rightarrow> bool" where
  "timer_inv dc = (work_pending dc \<or> timer_covers dc)"

lemmas example_defs =
  dc_queued_def queued_events_def late_timer_events_def dc_single_def dc_dual_def
  ti_single_def ti_dual_def read_bio_def write_bio_def empty_write_bio_def

lemmas run_defs =
  delay_map_def delay_bio_def Let_def queue_timeout_def mod_timer_def msecs_to_jiffies_def
  dm_target_offset_def time_after_eq_def handle_delayed_timer_def

section \<open>The dispatch router\<close>

text \<open>
  C1, as the code has it. \<^verbatim>\<open>delay_map\<close> takes the write device and the write delay exactly
  when the request is a write and a write device is configured, and the read device and
  the read delay otherwise. On the read path the request's sector becomes the read
  offset plus the request's offset within the target. On the write path it becomes the
  write offset plus that offset when the request carries sectors; a write that carries
  no sectors keeps its sector.
\<close>

theorem delay_map_select:
  assumes "delay_map ti b j = (r, b', dc')" and "dc = ti_private ti"
  shows "bio_data_dir b' = bio_data_dir b \<and> bio_sectors b' = bio_sectors b \<and>
    (if bio_data_dir b = WRITE \<and> dev_write dc \<noteq> None
     then bi_bdev b' = bdev (the (dev_write dc)) \<and>
          (r, dc') = delay_bio dc (write_delay dc) b' j \<and>
          bi_sector b' = (if bio_sectors b \<noteq> 0
                          then start_write dc + dm_target_offset ti (bi_sector b)
                          else bi_sector b)
     else bi_bdev b' = bdev (dev_read dc) \<and>
          (r, dc') = delay_bio dc (read_delay dc) b' j \<and>
          bi_sector b' = start_read dc + dm_target_offset ti (bi_sector b))"
  using assms by (auto simp: delay_map_def Let_def split: prod.splits if_splits)

text \<open>The write of 8 sectors at sector 10 goes to device 2 at sector 110, with the write
  delay of 200.\<close>

theorem delay_map_select_witness:
  "bi_bdev (fst (snd (delay_map ti_dual (write_bio 10) 0))) = 2 \<and>
   bi_sector (fst (snd (delay_map ti_dual (write_bio 10) 0))) = 110 \<and>
   (fst (delay_map ti_dual (write_bio 10) 0), snd (snd (delay_map ti_dual (write_bio 10) 0))) =
     delay_bio dc_dual 200 (fst (snd (delay_map ti_dual (write_bio 10) 0))) 0"
proof -
  obtain r b' dc' where h: "delay_map ti_dual (write_bio 10) 0 = (r, b', dc')"
    by (cases "delay_map ti_dual (write_bio 10) 0") auto
  have d: "dc_dual = ti_private ti_dual"
    by (simp add: ti_dual_def)
  have k: "bi_bdev b' = 2 \<and> bi_sector b' = 110 \<and> (r, dc') = delay_bio dc_dual 200 b' 0"
    using delay_map_select [OF h d]
    by (simp add: example_defs dm_target_offset_def)
  show ?thesis
    using k by (simp add: h)
qed

text \<open>
  C1 as it is written fails for a write that carries no sectors: with the write device
  configured at offset 100, such a write at sector 10 is sent to the write device, where
  the offset plus the request's offset is 110, and its sector is still 10.
\<close>

theorem delay_map_offset_counterexample:
  "bio_data_dir (empty_write_bio 10) = WRITE \<and>
   dev_write (ti_private ti_dual) = Some \<lparr>dev_name = ''B'', bdev = 2\<rparr> \<and>
   start_write (ti_private ti_dual) +
     dm_target_offset ti_dual (bi_sector (empty_write_bio 10)) = 110 \<and>
   bi_bdev (fst (snd (delay_map ti_dual (empty_write_bio 10) 0))) = 2 \<and>
   bi_sector (fst (snd (delay_map ti_dual (empty_write_bio 10) 0))) = 10"
  by (simp add: example_defs delay_map_def delay_bio_def dm_target_offset_def Let_def
      split: prod.splits)

text \<open>
  C10. On the write path with a write device the sector is translated only when the
  request carries a non-zero number of sectors, and is left as it is otherwise; on the
  read path it is translated whatever the number of sectors.
\<close>

theorem delay_map_sector_translation:
  "bi_sector (fst (snd (delay_map ti b j))) =
     (if bio_data_dir b = WRITE \<and> dev_write (ti_private ti) \<noteq> None then
        (if bio_sectors b \<noteq> 0
         then start_write (ti_private ti) + dm_target_offset ti (bi_sector b)
         else bi_sector b)
      else start_read (ti_private ti) + dm_target_offset ti (bi_sector b))"
  by (auto simp: delay_map_def Let_def split: prod.splits)

theorem delay_map_sector_translation_witness:
  "bi_sector (fst (snd (delay_map ti_dual (empty_write_bio 7) 3))) = 7 \<and>
   bi_sector (fst (snd (delay_map ti_dual (write_bio 7) 3))) = 107 \<and>
   bi_sector (fst (snd (delay_map ti_dual
      ((read_bio 7)\<lparr>bio_sectors := 0\<rparr>) 3))) = 7 + start_read dc_dual"
  using delay_map_sector_translation [of ti_dual "empty_write_bio 7" 3]
    delay_map_sector_translation [of ti_dual "write_bio 7" 3]
    delay_map_sector_translation [of ti_dual "(read_bio 7)\<lparr>bio_sectors := 0\<rparr>" 3]
  by (simp add: example_defs dm_target_offset_def)

section \<open>Admission\<close>

text \<open>
  C2. When the delay handed to \<^verbatim>\<open>delay_bio\<close> is zero, or \<^verbatim>\<open>may_delay\<close> is cleared,
  \<^verbatim>\<open>delay_bio\<close> returns \<^verbatim>\<open>DM_MAPIO_REMAPPED\<close> and the context is what it was: nothing is
  added to the list of delayed bios, neither counter moves and the timer is not touched.
  The same holds of \<^verbatim>\<open>delay_map\<close> for the delay it selects.
\<close>

theorem delay_bio_bypass:
  assumes "delay = 0 \<or> may_delay dc = 0"
  shows "delay_bio dc delay b j = (DM_MAPIO_REMAPPED, dc) \<and>
    delayed_bios (snd (delay_bio dc delay b j)) = delayed_bios dc \<and>
    reads (snd (delay_bio dc delay b j)) = reads dc \<and>
    writes (snd (delay_bio dc delay b j)) = writes dc \<and>
    delay_timer (snd (delay_bio dc delay b j)) = delay_timer dc \<and>
    (ti_private ti = dc \<and>
     delay = (if bio_data_dir b = WRITE \<and> dev_write dc \<noteq> None
              then write_delay dc else read_delay dc) \<longrightarrow>
       fst (delay_map ti b j) = DM_MAPIO_REMAPPED \<and> snd (snd (delay_map ti b j)) = dc)"
  using assms by (auto simp: delay_bio_def delay_map_def Let_def split: prod.splits)

text \<open>A target with one read queued, then suspended: a read (delay 100) is passed on
  at once. A read on the target whose read delay is zero is passed on at once.\<close>

theorem delay_bio_bypass_witness:
  "delay_bio ((snd (delay_bio dc_single 100 (read_bio 0) 0))\<lparr>may_delay := 0\<rparr>) 100
      (read_bio 8) 5 =
     (DM_MAPIO_REMAPPED, (snd (delay_bio dc_single 100 (read_bio 0) 0))\<lparr>may_delay := 0\<rparr>) \<and>
   length (delayed_bios ((snd (delay_bio dc_single 100 (read_bio 0) 0))\<lparr>may_delay := 0\<rparr>)) = 1 \<and>
   delay_map ti_dual (read_bio 8) 5 =
     (DM_MAPIO_REMAPPED, (read_bio 8)\<lparr>bi_bdev := 1\<rparr>, dc_dual)"
proof -
  have h1: "(100 :: unsigned) = 0 \<or>
      may_delay ((snd (delay_bio dc_single 100 (read_bio 0) 0))\<lparr>may_delay := 0\<rparr>) = 0"
    by simp
  have h2: "(0 :: unsigned) = 0 \<or> may_delay dc_dual = 0"
    by simp
  show ?thesis
    using delay_bio_bypass [OF h1, of "read_bio 8" 5 ti_single]
      delay_bio_bypass [OF h2, of "read_bio 8" 5 ti_dual]
    by (simp add: example_defs delay_bio_def delay_map_def dm_target_offset_def
        queue_timeout_def mod_timer_def msecs_to_jiffies_def Let_def)
qed

section \<open>Draining the queue\<close>

lemma flush_bios_id: "flush_bios bs = bs"
  by (induction bs) simp_all

lemma rw_not_WRITE: "(x \<noteq> WRITE) = (x = READ)"
  by (cases x) simp_all

text \<open>One turn of the loop, by whether the entry is due.\<close>

lemma flush_scan_Cons:
  "flush_scan fa j (d # ds) v =
     flush_scan fa j ds
       (if due fa j d then
          (if bio_data_dir (d_bio d) = WRITE
           then v\<lparr>fv_flush_bios := fv_flush_bios v @ [d_bio d], fv_writes := fv_writes v - 1\<rparr>
           else v\<lparr>fv_flush_bios := fv_flush_bios v @ [d_bio d], fv_reads := fv_reads v - 1\<rparr>)
        else if fv_start_timer v = 0
          then v\<lparr>fv_kept := fv_kept v @ [d], fv_start_timer := 1, fv_next_expires := expires d\<rparr>
          else v\<lparr>fv_kept := fv_kept v @ [d],
                 fv_next_expires := min (fv_next_expires v) (expires d)\<rparr>)"
  by (simp add: due_def time_after_eq_def Let_def)

lemma flush_scan_kept:
  "fv_kept (flush_scan fa j ds v) = fv_kept v @ filter (\<lambda>d. \<not> due fa j d) ds"
  by (induction ds arbitrary: v) (simp_all add: flush_scan_Cons del: flush_scan.simps(2))

lemma flush_scan_flush_bios:
  "fv_flush_bios (flush_scan fa j ds v) = fv_flush_bios v @ map d_bio (filter (due fa j) ds)"
  by (induction ds arbitrary: v) (simp_all add: flush_scan_Cons del: flush_scan.simps(2))

lemma flush_scan_reads:
  "fv_reads (flush_scan fa j ds v) =
     fv_reads v - of_nat (count_dir READ (filter (due fa j) ds))"
  by (induction ds arbitrary: v)
     (simp_all add: flush_scan_Cons count_dir_def rw_not_WRITE del: flush_scan.simps(2))

lemma flush_scan_writes:
  "fv_writes (flush_scan fa j ds v) =
     fv_writes v - of_nat (count_dir WRITE (filter (due fa j) ds))"
  by (induction ds arbitrary: v)
     (simp_all add: flush_scan_Cons count_dir_def rw_not_WRITE del: flush_scan.simps(2))

lemma flush_scan_start_timer:
  "(fv_start_timer (flush_scan fa j ds v) \<noteq> 0) =
     (fv_start_timer v \<noteq> 0 \<or> filter (\<lambda>d. \<not> due fa j d) ds \<noteq> [])"
  by (induction ds arbitrary: v) (simp_all add: flush_scan_Cons del: flush_scan.simps(2))

lemma Min_set_Cons:
  "Min (set (e # es)) = (if es = [] then e else min e (Min (set es)))"
  by (simp add: Min_insert)

lemma flush_scan_next_expires:
  "fv_next_expires (flush_scan fa j ds v) =
     (let es = map expires (filter (\<lambda>d. \<not> due fa j d) ds) in
      if es = [] then fv_next_expires v
      else if fv_start_timer v = 0 then Min (set es)
      else min (fv_next_expires v) (Min (set es)))"
proof (induction ds arbitrary: v)
  case Nil
  show ?case by simp
next
  case (Cons d ds)
  define es where "es = map expires (filter (\<lambda>d. \<not> due fa j d) ds)"
  show ?case
  proof (cases "due fa j d")
    case True
    then show ?thesis
      by (simp add: flush_scan_Cons Cons.IH Let_def del: flush_scan.simps)
  next
    case False
    then have s: "map expires (filter (\<lambda>d. \<not> due fa j d) (d # ds)) = expires d # es"
      by (simp add: es_def)
    have "fv_next_expires (flush_scan fa j (d # ds) v) =
        (if es = [] then (if fv_start_timer v = 0 then expires d
                          else min (fv_next_expires v) (expires d))
         else min (if fv_start_timer v = 0 then expires d
                   else min (fv_next_expires v) (expires d)) (Min (set es)))"
      using False
      by (simp add: flush_scan_Cons Cons.IH Let_def es_def [symmetric] del: flush_scan.simps)
    also have "\<dots> = (if fv_start_timer v = 0 then Min (set (expires d # es))
         else min (fv_next_expires v) (Min (set (expires d # es))))"
      unfolding Min_set_Cons by (simp add: min.assoc)
    finally show ?thesis
      unfolding s Let_def by simp
  qed
qed

text \<open>What \<^verbatim>\<open>flush_delayed_bios\<close> does, in one equation.\<close>

lemma flush_delayed_bios_eq:
  "flush_delayed_bios dc fa j =
     (let kept = filter (\<lambda>d. \<not> due fa j d) (delayed_bios dc);
          removed = filter (due fa j) (delayed_bios dc);
          dc1 = dc\<lparr>delayed_bios := kept,
                   reads := reads dc - of_nat (count_dir READ removed),
                   writes := writes dc - of_nat (count_dir WRITE removed)\<rparr>
      in (map d_bio removed,
          if kept = [] then dc1 else queue_timeout dc1 (Min (set (map expires kept)))))"
proof -
  let ?v = "flush_scan fa j (delayed_bios dc) (flush_init dc)"
  let ?kept = "filter (\<lambda>d. \<not> due fa j d) (delayed_bios dc)"
  have k: "fv_kept ?v = ?kept"
    by (simp add: flush_scan_kept flush_init_def)
  have f: "fv_flush_bios ?v = map d_bio (filter (due fa j) (delayed_bios dc))"
    by (simp add: flush_scan_flush_bios flush_init_def)
  have r: "fv_reads ?v = reads dc - of_nat (count_dir READ (filter (due fa j) (delayed_bios dc)))"
    by (simp add: flush_scan_reads flush_init_def)
  have w: "fv_writes ?v = writes dc - of_nat (count_dir WRITE (filter (due fa j) (delayed_bios dc)))"
    by (simp add: flush_scan_writes flush_init_def)
  have t: "(fv_start_timer ?v \<noteq> 0) = (?kept \<noteq> [])"
    by (simp add: flush_scan_start_timer flush_init_def)
  have n: "?kept \<noteq> [] \<Longrightarrow> fv_next_expires ?v = Min (set (map expires ?kept))"
    by (simp add: flush_scan_next_expires flush_init_def Let_def)
  show ?thesis
  proof (cases "?kept = []")
    case True
    with t have "fv_start_timer ?v = 0" by simp
    then show ?thesis
      using True by (simp add: flush_delayed_bios_def Let_def k f r w)
  next
    case False
    with t have "fv_start_timer ?v \<noteq> 0" by simp
    then show ?thesis
      using False n [OF False] by (simp add: flush_delayed_bios_def Let_def k f r w)
  qed
qed

text \<open>
  C3. For every context, time \<open>j\<close> and force flag, \<^verbatim>\<open>flush_delayed_bios\<close> takes off the list
  exactly the entries whose expiry is at most \<open>j\<close> (every entry when the flag is set),
  returns their bios in the order of the list, and leaves the others in their order.
  The loop ends with \<^verbatim>\<open>start_timer\<close> set exactly when an entry is left, and then
  \<^verbatim>\<open>next_expires\<close> is the least expiry among the entries left, which is what the timer
  is re-armed with.
\<close>

theorem flush_delayed_bios_drain:
  "fst (flush_delayed_bios dc fa j) = map d_bio (filter (due fa j) (delayed_bios dc)) \<and>
   delayed_bios (snd (flush_delayed_bios dc fa j)) =
     filter (\<lambda>d. \<not> due fa j d) (delayed_bios dc) \<and>
   (fv_start_timer (flush_scan fa j (delayed_bios dc) (flush_init dc)) \<noteq> 0) =
     (filter (\<lambda>d. \<not> due fa j d) (delayed_bios dc) \<noteq> []) \<and>
   (filter (\<lambda>d. \<not> due fa j d) (delayed_bios dc) \<noteq> [] \<longrightarrow>
      fv_next_expires (flush_scan fa j (delayed_bios dc) (flush_init dc)) =
        Min (set (map expires (filter (\<lambda>d. \<not> due fa j d) (delayed_bios dc))))) \<and>
   snd (flush_delayed_bios dc fa j) =
     (let kept = filter (\<lambda>d. \<not> due fa j d) (delayed_bios dc);
          removed = filter (due fa j) (delayed_bios dc);
          dc1 = dc\<lparr>delayed_bios := kept,
                   reads := reads dc - of_nat (count_dir READ removed),
                   writes := writes dc - of_nat (count_dir WRITE removed)\<rparr>
      in if kept = [] then dc1 else queue_timeout dc1 (Min (set (map expires kept))))"
proof -
  let ?v = "flush_scan fa j (delayed_bios dc) (flush_init dc)"
  let ?kept = "filter (\<lambda>d. \<not> due fa j d) (delayed_bios dc)"
  have t: "(fv_start_timer ?v \<noteq> 0) = (?kept \<noteq> [])"
    by (simp add: flush_scan_start_timer flush_init_def)
  have n: "?kept \<noteq> [] \<longrightarrow> fv_next_expires ?v = Min (set (map expires ?kept))"
    by (simp add: flush_scan_next_expires flush_init_def Let_def)
  have 1: "fst (flush_delayed_bios dc fa j) = map d_bio (filter (due fa j) (delayed_bios dc))"
    by (simp add: flush_delayed_bios_eq Let_def)
  have 2: "delayed_bios (snd (flush_delayed_bios dc fa j)) = ?kept"
    by (simp add: flush_delayed_bios_eq Let_def queue_timeout_def)
  have 5: "snd (flush_delayed_bios dc fa j) =
     (let kept = ?kept;
          removed = filter (due fa j) (delayed_bios dc);
          dc1 = dc\<lparr>delayed_bios := kept,
                   reads := reads dc - of_nat (count_dir READ removed),
                   writes := writes dc - of_nat (count_dir WRITE removed)\<rparr>
      in if kept = [] then dc1 else queue_timeout dc1 (Min (set (map expires kept))))"
    by (simp add: flush_delayed_bios_eq Let_def)
  show ?thesis
    using 1 2 t n 5 by blast
qed

text \<open>At time 150 the reads that expire at 100 and at 50 are released, in the order in
  which they were queued; the write that expires at 300 stays, and the timer, which was
  not pending, is armed for 300.\<close>

theorem flush_delayed_bios_drain_witness:
  "fst (flush_delayed_bios (dc_queued\<lparr>delay_timer := del_timer_sync (delay_timer dc_queued)\<rparr>)
      0 150) =
     [(read_bio 0)\<lparr>bi_bdev := 1\<rparr>, (read_bio 16)\<lparr>bi_bdev := 1\<rparr>] \<and>
   delayed_bios (snd (flush_delayed_bios
      (dc_queued\<lparr>delay_timer := del_timer_sync (delay_timer dc_queued)\<rparr>) 0 150)) =
     [\<lparr>d_bio = (write_bio 8)\<lparr>bi_bdev := 1\<rparr>, expires = 300\<rparr>] \<and>
   delay_timer (snd (flush_delayed_bios
      (dc_queued\<lparr>delay_timer := del_timer_sync (delay_timer dc_queued)\<rparr>) 0 150)) =
     \<lparr>timer_pending = True, timer_expires = 300\<rparr>"
  using flush_delayed_bios_drain
    [of "dc_queued\<lparr>delay_timer := del_timer_sync (delay_timer dc_queued)\<rparr>" 0 150]
  by (simp add: example_defs due_def count_dir_def queue_timeout_def mod_timer_def
      del_timer_sync_def)

lemma dc_queued_reachable: "ti_private (run ti_single queued_events) = dc_queued"
  by (simp add: example_defs run_defs read_delay_store_def store_delay_def sscanf_d_def
      isspace_def isdigit_def)

section \<open>Suspending\<close>

text \<open>
  C8. Whatever is queued, \<^verbatim>\<open>delay_presuspend\<close> clears \<^verbatim>\<open>may_delay\<close>, cancels the timer and
  passes to \<^verbatim>\<open>generic_make_request\<close> the bio of every queued entry, each once and in the
  order of the queue; as many bios are released as entries were queued, the queue is
  left empty and the timer is not armed again.
\<close>

theorem presuspend_drains_all:
  "fst (delay_presuspend ti j) = map d_bio (delayed_bios (ti_private ti)) \<and>
   length (fst (delay_presuspend ti j)) = length (delayed_bios (ti_private ti)) \<and>
   delayed_bios (snd (delay_presuspend ti j)) = [] \<and>
   may_delay (snd (delay_presuspend ti j)) = 0 \<and>
   timer_pending (delay_timer (snd (delay_presuspend ti j))) = False \<and>
   snd (delay_presuspend ti j) =
     (ti_private ti)\<lparr>may_delay := 0,
        delay_timer := del_timer_sync (delay_timer (ti_private ti)),
        delayed_bios := [],
        reads := reads (ti_private ti) - of_nat (count_dir READ (delayed_bios (ti_private ti))),
        writes := writes (ti_private ti) -
          of_nat (count_dir WRITE (delayed_bios (ti_private ti)))\<rparr>"
  by (simp add: delay_presuspend_def flush_delayed_bios_eq Let_def due_def flush_bios_id
      del_timer_sync_def)

text \<open>The three queued requests are released in their order, and both counters are
  back at zero.\<close>

theorem presuspend_drains_all_witness:
  "fst (delay_presuspend \<lparr>ti_begin = 0, ti_private = dc_queued\<rparr> 20) =
     [(read_bio 0)\<lparr>bi_bdev := 1\<rparr>, (write_bio 8)\<lparr>bi_bdev := 1\<rparr>, (read_bio 16)\<lparr>bi_bdev := 1\<rparr>] \<and>
   delayed_bios (snd (delay_presuspend \<lparr>ti_begin = 0, ti_private = dc_queued\<rparr> 20)) = [] \<and>
   reads (snd (delay_presuspend \<lparr>ti_begin = 0, ti_private = dc_queued\<rparr> 20)) = 0 \<and>
   writes (snd (delay_presuspend \<lparr>ti_begin = 0, ti_private = dc_queued\<rparr> 20)) = 0"
  using presuspend_drains_all [of "\<lparr>ti_begin = 0, ti_private = dc_queued\<rparr>" 20]
  by (simp add: example_defs count_dir_def)

section \<open>The counters\<close>

lemma count_dir_split:
  "count_dir dir q = count_dir dir (filter P q) + count_dir dir (filter (\<lambda>d. \<not> P d) q)"
  by (induction q) (simp_all add: count_dir_def)

lemma queue_timeout_frame:
  "delayed_bios (queue_timeout dc e) = delayed_bios dc"
  "reads (queue_timeout dc e) = reads dc"
  "writes (queue_timeout dc e) = writes dc"
  "work_pending (queue_timeout dc e) = work_pending dc"
  "may_delay (queue_timeout dc e) = may_delay dc"
  "dev_write (queue_timeout dc e) = dev_write dc"
  "read_delay (queue_timeout dc e) = read_delay dc"
  "write_delay (queue_timeout dc e) = write_delay dc"
  by (simp_all add: queue_timeout_def)

lemma counters_ok_queue_timeout: "counters_ok (queue_timeout dc e) = counters_ok dc"
  by (simp add: counters_ok_def queue_timeout_frame)

lemma counters_ok_delay_bio: "counters_ok dc \<Longrightarrow> counters_ok (snd (delay_bio dc delay b j))"
  by (cases "bio_data_dir b")
     (simp_all add: delay_bio_def Let_def counters_ok_queue_timeout, simp_all add: counters_ok_def count_dir_def)

lemma delay_map_dc:
  "snd (snd (delay_map ti b j)) =
     snd (delay_bio (ti_private ti)
       (if bio_data_dir b = WRITE \<and> dev_write (ti_private ti) \<noteq> None
        then write_delay (ti_private ti) else read_delay (ti_private ti))
       (fst (snd (delay_map ti b j))) j)"
  by (auto simp: delay_map_def Let_def case_prod_beta)

lemma counters_ok_delay_map:
  "counters_ok (ti_private ti) \<Longrightarrow> counters_ok (snd (snd (delay_map ti b j)))"
  unfolding delay_map_dc by (rule counters_ok_delay_bio)

lemma counters_ok_flush:
  assumes "counters_ok dc"
  shows "counters_ok (snd (flush_delayed_bios dc fa j))"
proof -
  have r: "reads dc - of_nat (count_dir READ (filter (due fa j) (delayed_bios dc))) =
      of_nat (count_dir READ (filter (\<lambda>d. \<not> due fa j d) (delayed_bios dc)))"
    using assms count_dir_split [of READ "delayed_bios dc" "due fa j"]
    by (simp add: counters_ok_def)
  have w: "writes dc - of_nat (count_dir WRITE (filter (due fa j) (delayed_bios dc))) =
      of_nat (count_dir WRITE (filter (\<lambda>d. \<not> due fa j d) (delayed_bios dc)))"
    using assms count_dir_split [of WRITE "delayed_bios dc" "due fa j"]
    by (simp add: counters_ok_def)
  show ?thesis
    by (simp add: flush_delayed_bios_eq Let_def counters_ok_queue_timeout)
       (simp add: counters_ok_def r w)
qed

lemma counters_ok_store_delay: "counters_ok dc \<Longrightarrow> counters_ok (snd (store_delay dc p buf c j g))"
  by (cases p) (simp_all add: store_delay_def Let_def counters_ok_queue_timeout, simp_all add: counters_ok_def)

lemma counters_ok_step:
  "counters_ok (ti_private ti) \<Longrightarrow> counters_ok (ti_private (step ti ev))"
proof (cases ev)
  case (Map b j)
  assume "counters_ok (ti_private ti)"
  then show ?thesis using Map by (simp add: counters_ok_delay_map)
next
  case (Timer_Fires j)
  assume "counters_ok (ti_private ti)"
  then show ?thesis using Timer_Fires
    by (simp add: Let_def handle_delayed_timer_def counters_ok_def)
next
  case (Work_Runs j)
  assume a: "counters_ok (ti_private ti)"
  then have "counters_ok ((ti_private ti)\<lparr>work_pending := False\<rparr>)"
    by (simp add: counters_ok_def)
  from counters_ok_flush [OF this] a show ?thesis using Work_Runs
    by (simp add: Let_def flush_expired_bios_def case_prod_beta)
next
  case (Read_Delay_Store buf c j g)
  assume "counters_ok (ti_private ti)"
  then show ?thesis using Read_Delay_Store
    by (simp add: read_delay_store_def counters_ok_store_delay)
next
  case (Write_Delay_Store buf c j g)
  assume "counters_ok (ti_private ti)"
  then show ?thesis using Write_Delay_Store
    by (simp add: write_delay_store_def counters_ok_store_delay)
next
  case (Presuspend j)
  assume a: "counters_ok (ti_private ti)"
  then have "counters_ok ((ti_private ti)\<lparr>may_delay := 0,
      delay_timer := del_timer_sync (delay_timer (ti_private ti))\<rparr>)"
    by (simp add: counters_ok_def)
  from counters_ok_flush [OF this] show ?thesis using Presuspend
    by (simp add: Let_def delay_presuspend_def case_prod_beta)
next
  case Resume
  assume "counters_ok (ti_private ti)"
  then show ?thesis using Resume
    by (simp add: delay_resume_def counters_ok_def)
qed

lemma counters_ok_run:
  "counters_ok (ti_private ti) \<Longrightarrow> counters_ok (ti_private (run ti evs))"
  by (induction evs arbitrary: ti) (simp_all add: counters_ok_step)

lemma constructed_counters_ok: "constructed dc \<Longrightarrow> counters_ok dc"
  by (simp add: constructed_def counters_ok_def count_dir_def)

lemma count_dir_le: "count_dir dir q \<le> length q"
  by (simp add: count_dir_def)

text \<open>
  C9. After any sequence of calls into a target that \<^verbatim>\<open>delay_ctr\<close> has constructed, the
  read counter is the number of queued reads and the write counter the number of queued
  writes. The counters are 32-bit: the equality holds in that type, and as plain numbers
  whenever fewer than \<open>2 ^ 32\<close> requests are queued.
\<close>

theorem counters_match_queue:
  assumes "constructed (ti_private ti)" and "dc = ti_private (run ti evs)"
  shows "reads dc = of_nat (count_dir READ (delayed_bios dc)) \<and>
    writes dc = of_nat (count_dir WRITE (delayed_bios dc)) \<and>
    (length (delayed_bios dc) < 2 ^ 32 \<longrightarrow>
       unat (reads dc) = count_dir READ (delayed_bios dc) \<and>
       unat (writes dc) = count_dir WRITE (delayed_bios dc))"
proof -
  have ok: "counters_ok dc"
    using assms by (simp add: counters_ok_run constructed_counters_ok)
  have "unat (of_nat n :: unsigned) = n" if "n \<le> length (delayed_bios dc)"
    and "length (delayed_bios dc) < 2 ^ 32" for n
    using that by (simp add: unat_of_nat)
  then show ?thesis
    using ok count_dir_le [of READ "delayed_bios dc"] count_dir_le [of WRITE "delayed_bios dc"]
    unfolding counters_ok_def by metis
qed

theorem counters_match_queue_witness:
  "reads (ti_private (run ti_single late_timer_events)) = 2 \<and>
   count_dir READ (delayed_bios (ti_private (run ti_single late_timer_events))) = 2 \<and>
   writes (ti_private (run ti_single late_timer_events)) = 0"
proof -
  have c: "constructed (ti_private ti_single)"
    by (simp add: constructed_def example_defs)
  have l: "length (delayed_bios (ti_private (run ti_single late_timer_events))) = 2"
    by (simp add: late_timer_events_def example_defs delay_map_def delay_bio_def Let_def
      queue_timeout_def mod_timer_def msecs_to_jiffies_def dm_target_offset_def
      time_after_eq_def handle_delayed_timer_def)
  have r: "count_dir READ (delayed_bios (ti_private (run ti_single late_timer_events))) = 2"
    by (simp add: late_timer_events_def example_defs delay_map_def delay_bio_def Let_def
      queue_timeout_def mod_timer_def msecs_to_jiffies_def dm_target_offset_def
      time_after_eq_def handle_delayed_timer_def count_dir_def)
  have w: "count_dir WRITE (delayed_bios (ti_private (run ti_single late_timer_events))) = 0"
    by (simp add: late_timer_events_def example_defs delay_map_def delay_bio_def Let_def
      queue_timeout_def mod_timer_def msecs_to_jiffies_def dm_target_offset_def
      time_after_eq_def handle_delayed_timer_def count_dir_def)
  show ?thesis
    using counters_match_queue [OF c refl, of late_timer_events] l r w by simp
qed

section \<open>The timer\<close>

lemma timer_covers_queue_timeout:
  assumes "timer_covers dc \<or> list_all (\<lambda>d. e \<le> expires d) (delayed_bios dc)"
  shows "timer_covers (queue_timeout dc e)"
  using assms
  by (auto simp: timer_covers_def queue_timeout_def mod_timer_def list_all_iff)

lemma timer_covers_enqueue:
  assumes "timer_covers dc" and "delayed_bios dc' = delayed_bios dc @ [d]"
    and "delay_timer dc' = delay_timer dc"
  shows "timer_covers (queue_timeout dc' (expires d))"
  using assms
  by (auto simp: timer_covers_def queue_timeout_def mod_timer_def list_all_iff)

lemma timer_inv_delay_bio: "timer_inv dc \<Longrightarrow> timer_inv (snd (delay_bio dc delay b j))"
  unfolding timer_inv_def
proof (elim disjE)
  assume "work_pending dc"
  then show "work_pending (snd (delay_bio dc delay b j)) \<or> timer_covers (snd (delay_bio dc delay b j))"
    by (simp add: delay_bio_def Let_def queue_timeout_frame)
next
  assume c: "timer_covers dc"
  show "work_pending (snd (delay_bio dc delay b j)) \<or> timer_covers (snd (delay_bio dc delay b j))"
  proof (cases "delay = 0 \<or> may_delay dc = 0")
    case True
    then show ?thesis using c by (simp add: delay_bio_def)
  next
    case False
    let ?d = "\<lparr>d_bio = b, expires = j + msecs_to_jiffies delay\<rparr>"
    let ?dc1 = "if bio_data_dir b = WRITE then dc\<lparr>writes := writes dc + 1\<rparr>
                else dc\<lparr>reads := reads dc + 1\<rparr>"
    let ?dc2 = "?dc1\<lparr>delayed_bios := delayed_bios ?dc1 @ [?d]\<rparr>"
    have "timer_covers (queue_timeout ?dc2 (expires ?d))"
      by (rule timer_covers_enqueue [OF c]) simp_all
    then show ?thesis using False by (simp add: delay_bio_def Let_def)
  qed
qed

lemma timer_covers_flush: "timer_covers (snd (flush_delayed_bios dc fa j))"
proof -
  let ?kept = "filter (\<lambda>d. \<not> due fa j d) (delayed_bios dc)"
  let ?dc1 = "dc\<lparr>delayed_bios := ?kept,
      reads := reads dc - of_nat (count_dir READ (filter (due fa j) (delayed_bios dc))),
      writes := writes dc - of_nat (count_dir WRITE (filter (due fa j) (delayed_bios dc)))\<rparr>"
  show ?thesis
  proof (cases "?kept = []")
    case True
    then show ?thesis
      by (simp add: flush_delayed_bios_eq Let_def timer_covers_def)
  next
    case False
    have "list_all (\<lambda>d. Min (set (map expires ?kept)) \<le> expires d) (delayed_bios ?dc1)"
      by (simp add: list_all_iff)
    then have "timer_covers (queue_timeout ?dc1 (Min (set (map expires ?kept))))"
      by (rule timer_covers_queue_timeout [OF disjI2])
    then show ?thesis
      using False by (simp add: flush_delayed_bios_eq Let_def)
  qed
qed

lemma timer_inv_store_delay: "timer_inv dc \<Longrightarrow> timer_inv (snd (store_delay dc p buf c j g))"
proof -
  assume a: "timer_inv dc"
  have "timer_inv (queue_timeout (assign dc p v) e)" for v e
  proof (cases "work_pending dc")
    case True
    then show ?thesis by (cases p) (simp_all add: timer_inv_def queue_timeout_frame)
  next
    case False
    with a have "timer_covers dc" by (simp add: timer_inv_def)
    then have "timer_covers (assign dc p v)" by (cases p) (simp_all add: timer_covers_def)
    then show ?thesis
      by (simp add: timer_inv_def timer_covers_queue_timeout)
  qed
  then show ?thesis using a by (simp add: store_delay_def Let_def)
qed

lemma timer_inv_step:
  "timer_inv (ti_private ti) \<Longrightarrow> timer_inv (ti_private (step ti ev))"
proof (cases ev)
  case (Map b j)
  assume "timer_inv (ti_private ti)"
  then show ?thesis using Map by (simp add: delay_map_dc timer_inv_delay_bio)
next
  case (Timer_Fires j)
  assume "timer_inv (ti_private ti)"
  then show ?thesis using Timer_Fires
    by (simp add: Let_def handle_delayed_timer_def timer_inv_def)
next
  case (Work_Runs j)
  assume a: "timer_inv (ti_private ti)"
  then show ?thesis using Work_Runs
    by (auto simp: Let_def flush_expired_bios_def case_prod_beta timer_inv_def timer_covers_flush)
next
  case (Read_Delay_Store buf c j g)
  assume "timer_inv (ti_private ti)"
  then show ?thesis using Read_Delay_Store
    by (simp add: read_delay_store_def timer_inv_store_delay)
next
  case (Write_Delay_Store buf c j g)
  assume "timer_inv (ti_private ti)"
  then show ?thesis using Write_Delay_Store
    by (simp add: write_delay_store_def timer_inv_store_delay)
next
  case (Presuspend j)
  show ?thesis using Presuspend
    by (simp add: Let_def delay_presuspend_def case_prod_beta timer_inv_def timer_covers_flush)
next
  case Resume
  assume "timer_inv (ti_private ti)"
  then show ?thesis using Resume
    by (simp add: delay_resume_def timer_inv_def timer_covers_def)
qed

lemma timer_inv_run:
  "timer_inv (ti_private ti) \<Longrightarrow> timer_inv (ti_private (run ti evs))"
  by (induction evs arbitrary: ti) (simp_all add: timer_inv_step)

lemma constructed_timer_inv: "constructed dc \<Longrightarrow> timer_inv dc"
  by (simp add: constructed_def timer_inv_def timer_covers_def)

text \<open>
  C7, as the code has it. In every state reached from a constructed target in which the
  work item \<^verbatim>\<open>flush_expired_bios\<close> is not queued, the queue is empty or the timer is pending
  and armed no later than any queued expiry. \<^verbatim>\<open>queue_timeout\<close> programs the timer with
  the candidate exactly when the timer is not pending or the candidate is earlier than
  the armed time, and changes nothing else.
\<close>

theorem timer_covers_queue:
  assumes "constructed (ti_private ti)" and "dc = ti_private (run ti evs)"
  shows "(\<not> work_pending dc \<longrightarrow> timer_covers dc) \<and>
    delay_timer (queue_timeout dc e) =
      (if \<not> timer_pending (delay_timer dc) \<or> e < timer_expires (delay_timer dc)
       then \<lparr>timer_pending = True, timer_expires = e\<rparr> else delay_timer dc) \<and>
    (queue_timeout dc e)\<lparr>delay_timer := delay_timer dc\<rparr> = dc"
proof -
  have "timer_inv dc"
    using assms by (simp add: timer_inv_run constructed_timer_inv)
  then show ?thesis
    by (auto simp: timer_inv_def queue_timeout_def mod_timer_def)
qed

theorem timer_covers_queue_witness:
  "\<not> work_pending (ti_private (run ti_single (late_timer_events @ [Work_Runs 100]))) \<and>
   timer_covers (ti_private (run ti_single (late_timer_events @ [Work_Runs 100]))) \<and>
   delay_timer (queue_timeout (ti_private (run ti_single (late_timer_events @ [Work_Runs 100])))
      150) = \<lparr>timer_pending = True, timer_expires = 150\<rparr>"
proof -
  have c: "constructed (ti_private ti_single)"
    by (simp add: constructed_def example_defs)
  have t: "delay_timer (ti_private (run ti_single (late_timer_events @ [Work_Runs 100]))) =
      \<lparr>timer_pending = True, timer_expires = 200\<rparr>"
    by (simp add: late_timer_events_def example_defs run_defs flush_expired_bios_def
        flush_delayed_bios_def flush_init_def)
  have w: "\<not> work_pending (ti_private (run ti_single (late_timer_events @ [Work_Runs 100])))"
    by (simp add: late_timer_events_def example_defs run_defs flush_expired_bios_def
        flush_delayed_bios_def flush_init_def)
  show ?thesis
    using timer_covers_queue [OF c refl, of "late_timer_events @ [Work_Runs 100]" 150] w
    by (simp add: t)
qed

text \<open>
  C7 as it is written fails between the firing of the timer and the run of the work
  item. A read queued at time 0 expires at 100; the timer fires at 100, which only
  queues the work item; a read admitted at 100, before the work item runs, finds no
  timer pending and arms it for 200, later than the first read's expiry, which is still
  queued.
\<close>

theorem timer_late_counterexample:
  "constructed (ti_private ti_single) \<and>
   timer_pending (delay_timer (ti_private (run ti_single late_timer_events))) \<and>
   timer_expires (delay_timer (ti_private (run ti_single late_timer_events))) = 200 \<and>
   map expires (delayed_bios (ti_private (run ti_single late_timer_events))) = [100, 200]"
  by (simp add: late_timer_events_def example_defs delay_map_def delay_bio_def Let_def
      queue_timeout_def mod_timer_def msecs_to_jiffies_def dm_target_offset_def
      time_after_eq_def handle_delayed_timer_def constructed_def)

section \<open>Writing the delay attributes\<close>

text \<open>
  C4. A write to either delay attribute leaves the list of delayed bios as it was, so
  every queued request keeps its expiry; a request admitted afterwards and delayed is
  appended with the expiry computed from the delay stored by then, which is the number
  written when the input holds one (for the write delay, when a write device is
  configured).
\<close>

theorem store_delay_keeps_expiries:
  assumes "ev = Read_Delay_Store buf count j g \<or> ev = Write_Delay_Store buf count j g"
    and "ti' = step ti ev"
  shows "delayed_bios (ti_private ti') = delayed_bios (ti_private ti) \<and>
    map expires (delayed_bios (ti_private ti')) = map expires (delayed_bios (ti_private ti)) \<and>
    (\<forall>b j'. fst (delay_map ti' b j') = DM_MAPIO_SUBMITTED \<longrightarrow>
       delayed_bios (snd (snd (delay_map ti' b j'))) =
         delayed_bios (ti_private ti) @
           [\<lparr>d_bio = fst (snd (delay_map ti' b j')),
             expires = j' + msecs_to_jiffies
               (if bio_data_dir b = WRITE \<and> dev_write (ti_private ti') \<noteq> None
                then write_delay (ti_private ti') else read_delay (ti_private ti'))\<rparr>]) \<and>
    (\<forall>n. sscanf_d buf = Some n \<longrightarrow>
       (ev = Read_Delay_Store buf count j g \<longrightarrow> read_delay (ti_private ti') = word_of_int n) \<and>
       (ev = Write_Delay_Store buf count j g \<and> dev_write (ti_private ti) \<noteq> None \<longrightarrow>
          write_delay (ti_private ti') = word_of_int n))"
proof -
  have q: "delayed_bios (snd (store_delay dc p buf count j g)) = delayed_bios dc" for dc p
    by (cases p) (simp_all add: store_delay_def Let_def queue_timeout_frame)
  have 1: "delayed_bios (ti_private ti') = delayed_bios (ti_private ti)"
    using assms by (auto simp: read_delay_store_def write_delay_store_def q)
  have 3: "delayed_bios (snd (snd (delay_map ti' b j'))) =
         delayed_bios (ti_private ti') @
           [\<lparr>d_bio = fst (snd (delay_map ti' b j')),
             expires = j' + msecs_to_jiffies
               (if bio_data_dir b = WRITE \<and> dev_write (ti_private ti') \<noteq> None
                then write_delay (ti_private ti') else read_delay (ti_private ti'))\<rparr>]"
    if "fst (delay_map ti' b j') = DM_MAPIO_SUBMITTED" for b j'
    using that
    by (auto simp: delay_map_def delay_bio_def Let_def case_prod_beta queue_timeout_frame
        split: if_splits)
  have 4: "read_delay (snd (store_delay dc READ_DELAY buf count j g)) = word_of_int n"
    "write_delay (snd (store_delay dc WRITE_DELAY buf count j g)) = word_of_int n"
    if "sscanf_d buf = Some n" for n dc
    using that by (simp_all add: store_delay_def Let_def queue_timeout_frame)
  show ?thesis
    using assms 1 3 4 by (auto simp: read_delay_store_def write_delay_store_def)
qed

text \<open>A read queued with the delay 100 keeps the expiry 100 when the read delay is set
  to 1; the read admitted after that expires at 1.\<close>

theorem store_delay_keeps_expiries_witness:
  "map expires (delayed_bios (ti_private (step ti_single (Map (read_bio 0) 0)))) = [100] \<and>
   map expires (delayed_bios (ti_private
      (run ti_single [Map (read_bio 0) 0, Read_Delay_Store ''1'' 1 0 0]))) = [100] \<and>
   read_delay (ti_private
      (run ti_single [Map (read_bio 0) 0, Read_Delay_Store ''1'' 1 0 0])) = 1 \<and>
   map expires (delayed_bios (ti_private
      (run ti_single [Map (read_bio 0) 0, Read_Delay_Store ''1'' 1 0 0, Map (read_bio 8) 0]))) =
     [100, 1]"
proof -
  let ?ti = "step ti_single (Map (read_bio 0) 0)"
  let ?ev = "Read_Delay_Store ''1'' 1 0 0"
  have e: "?ev = Read_Delay_Store ''1'' 1 0 0 \<or> ?ev = Write_Delay_Store ''1'' 1 0 0"
    by simp
  have p: "sscanf_d ''1'' = Some 1"
    by (simp add: sscanf_d_def isspace_def isdigit_def)
  have q: "map expires (delayed_bios (ti_private ?ti)) = [100]"
    by (simp add: example_defs run_defs)
  have s: "fst (delay_map (step ?ti ?ev) (read_bio 8) 0) = DM_MAPIO_SUBMITTED"
    by (simp add: example_defs run_defs read_delay_store_def store_delay_def p)
  note T = store_delay_keeps_expiries [OF e refl, of ?ti]
  from T have A: "map expires (delayed_bios (ti_private (step ?ti ?ev))) =
      map expires (delayed_bios (ti_private ?ti))"
    by blast
  from T p have C: "read_delay (ti_private (step ?ti ?ev)) = 1"
    by simp
  from T s have B: "delayed_bios (snd (snd (delay_map (step ?ti ?ev) (read_bio 8) 0))) =
      delayed_bios (ti_private ?ti) @
        [\<lparr>d_bio = fst (snd (delay_map (step ?ti ?ev) (read_bio 8) 0)),
          expires = 0 + msecs_to_jiffies
            (if bio_data_dir (read_bio 8) = WRITE \<and> dev_write (ti_private (step ?ti ?ev)) \<noteq> None
             then write_delay (ti_private (step ?ti ?ev))
             else read_delay (ti_private (step ?ti ?ev)))\<rparr>]"
    by blast
  have rb: "bio_data_dir (read_bio 8) = READ"
    by (simp add: read_bio_def)
  have D: "map expires (delayed_bios (snd (snd (delay_map (step ?ti ?ev) (read_bio 8) 0)))) =
      [100, 1]"
    unfolding B using q C by (simp add: rb msecs_to_jiffies_def)
  show ?thesis
    using A C D q by simp
qed

text \<open>
  C5 does not hold of the code. \<^verbatim>\<open>store_delay\<close> never takes the branch that refuses the
  input, since its test compares an unsigned value with zero: whatever \<^verbatim>\<open>sscanf\<close> stored
  (a negative number as its two's complement pattern), or the uninitialised value when
  it stored nothing, becomes the delay, and the timer is re-armed with it. The count is
  returned in every case.
\<close>

theorem store_delay_takes_any_input:
  "store_delay dc p buf count j g =
     (sint count,
      queue_timeout
        (assign dc p (case sscanf_d buf of Some n \<Rightarrow> word_of_int n | None \<Rightarrow> g))
        (j + msecs_to_jiffies (case sscanf_d buf of Some n \<Rightarrow> word_of_int n | None \<Rightarrow> g)))"
  by (simp add: store_delay_def Let_def)

text \<open>Writing \<^verbatim>\<open>-5\<close> over the read delay 100 stores 4294967291; writing \<^verbatim>\<open>abc\<close> stores
  what the local variable happened to hold.\<close>

theorem store_delay_takes_any_input_witness:
  "read_delay dc_single = 100 \<and>
   read_delay (snd (read_delay_store dc_single ''-5'' 2 0 0)) = 4294967291 \<and>
   fst (read_delay_store dc_single ''-5'' 2 0 0) = 2 \<and>
   read_delay (snd (read_delay_store dc_single ''abc'' 3 0 7)) = 7"
proof -
  have a: "sscanf_d ''-5'' = Some (- 5)"
    by (simp add: sscanf_d_def isspace_def isdigit_def)
  have b: "sscanf_d ''abc'' = None"
    by (simp add: sscanf_d_def isspace_def isdigit_def)
  show ?thesis
    using store_delay_takes_any_input [of dc_single READ_DELAY "''-5''" 2 0 0]
      store_delay_takes_any_input [of dc_single READ_DELAY "''abc''" 3 0 7]
    by (simp add: read_delay_store_def a b queue_timeout_frame) (simp add: example_defs)
qed

text \<open>
  C6, as the code has it. Without a write device, \<^verbatim>\<open>write_delay_store\<close> returns the
  count, as a successful write does, and leaves the context, the stored write delay
  included, unchanged.
\<close>

theorem write_delay_store_no_write_device:
  assumes "dev_write dc = None"
  shows "write_delay_store dc buf count j g = (sint count, dc) \<and>
    write_delay (snd (write_delay_store dc buf count j g)) = write_delay dc"
  using assms by (simp add: write_delay_store_def)

theorem write_delay_store_no_write_device_witness:
  "write_delay_store dc_queued ''7'' 1 10 0 = (1, dc_queued)"
proof -
  have h: "dev_write dc_queued = None"
    by (simp add: example_defs)
  show ?thesis
    using write_delay_store_no_write_device [OF h, of "''7''" 1 10 0] by simp
qed

text \<open>
  C6 as it is written fails: on a target without a write device the write of \<^verbatim>\<open>5\<close> to
  the write delay returns 1, the number of bytes written, which is what the accepted
  write of \<^verbatim>\<open>5\<close> to the read delay returns; no error code comes back.
\<close>

theorem write_delay_store_not_rejected_counterexample:
  "dev_write dc_single = None \<and>
   write_delay_store dc_single ''5'' 1 0 0 = (1, dc_single) \<and>
   fst (read_delay_store dc_single ''5'' 1 0 0) = 1"
  by (simp add: write_delay_store_def read_delay_store_def store_delay_def Let_def)
     (simp add: example_defs)

end
